theory Spec2Isabelle
  imports Complex_Main
begin

section \<open>Data model of the editor\<close>

text \<open>
  The editor is one Svelte component whose functions share module-level mutable state.
  The embedding makes that state an explicit record that every operation takes and
  returns. JavaScript numbers that hold pixel coordinates, indices and channel values
  are integers here; where the source divides (alpha blending, the ray-casting test)
  the arithmetic is done in exact rationals, which idealises IEEE doubles.

  A pixel is the group of four consecutive bytes of an \<open>ImageData.data\<close> array; every
  access in the source reads or writes such a group at \<open>(y * width + x) * 4\<close>, so a
  bitmap is a row-major list of pixels indexed by \<open>y * width + x\<close>.
\<close>

datatype rgba = RGBA (red: int) (green: int) (blue: int) (alpha: int)

record imageData =
  width :: int
  height :: int
  data :: "rgba list"

text \<open>
  A layer owns a canvas of the editor's size (\<open>createLayer\<close>, \<open>loadImage\<close> and
  \<open>applyCanvasSize\<close> keep every layer canvas at \<open>canvasWidth\<close> by \<open>canvasHeight\<close>);
  \<open>pixels\<close> is the content of that canvas.
\<close>

record layer =
  layerId :: string
  name :: string
  pixels :: "rgba list"
  visible :: bool

record historyState =
  layerStates :: "(string \<times> imageData) list"
  savedActiveLayerIndex :: int

record floating =
  floatingImageData :: imageData
  floatingX :: int
  floatingY :: int

record bounds =
  minX :: int
  minY :: int
  maxX :: int
  maxY :: int

text \<open>
  \<open>ctx\<close> is the content of the display canvas, \<open>None\<close> while the 2D context is still
  null. A lasso point is the pair \<open>(x, y)\<close>.
\<close>

record editor =
  canvasWidth :: int
  canvasHeight :: int
  layers :: "layer list"
  activeLayerIndex :: int
  ctx :: "rgba list option"
  paintColor :: string
  paintOpacity :: int
  undoStack :: "historyState list"
  redoStack :: "historyState list"
  floatingSelection :: "floating option"
  lassoPoints :: "(int \<times> int) list"
  lassoMask :: "bool list list option"
  lassoImageData :: "imageData option"
  lassoBounds :: "bounds option"

definition MAX_UNDO_STEPS :: nat where
  "MAX_UNDO_STEPS = 50"

abbreviation transparent :: rgba where
  "transparent \<equiv> RGBA 0 0 0 0"

section \<open>Numeric helpers\<close>

text \<open>\<open>Math.round\<close> rounds to the nearest integer, halves towards plus infinity.\<close>

definition mathRound :: "rat \<Rightarrow> int" where
  "mathRound v = \<lfloor>v + 1 / 2\<rfloor>"

text \<open>A store into a \<open>Uint8ClampedArray\<close> clamps an integer to 0..255.\<close>

definition clamp8 :: "int \<Rightarrow> int" where
  "clamp8 v = (if v < 0 then 0 else if 255 < v then 255 else v)"

definition clampPixel :: "rgba \<Rightarrow> rgba" where
  "clampPixel c = RGBA (clamp8 (red c)) (clamp8 (green c)) (clamp8 (blue c)) (clamp8 (alpha c))"

text \<open>
  A typed array ignores a store outside its range, and a read outside its range yields
  \<open>undefined\<close>; the operations below read only after their own bounds checks.
\<close>

definition storePixel :: "rgba list \<Rightarrow> int \<Rightarrow> rgba \<Rightarrow> rgba list" where
  "storePixel d i c = (if 0 \<le> i \<and> i < int (length d) then d[nat i := clampPixel c] else d)"

section \<open>Alpha blending of a paint sample (\<open>blendPixel\<close>)\<close>

text \<open>
  \<open>blendOver dst color\<close> is what \<open>blendPixel\<close> leaves in the four bytes of one pixel:
  the alphas are read first, each channel is computed from its own old value, and nothing
  is written when the resulting alpha is not positive.
\<close>

definition blendOver :: "rgba \<Rightarrow> rgba \<Rightarrow> rgba" where
  "blendOver dst color =
     (let srcAlpha = of_int (alpha color) / (255 :: rat);
          dstAlpha = of_int (alpha dst) / (255 :: rat);
          outAlpha = srcAlpha + dstAlpha * (1 - srcAlpha)
      in if outAlpha > 0 then
           RGBA
             (clamp8 (mathRound ((of_int (red color) * srcAlpha
                 + of_int (red dst) * dstAlpha * (1 - srcAlpha)) / outAlpha)))
             (clamp8 (mathRound ((of_int (green color) * srcAlpha
                 + of_int (green dst) * dstAlpha * (1 - srcAlpha)) / outAlpha)))
             (clamp8 (mathRound ((of_int (blue color) * srcAlpha
                 + of_int (blue dst) * dstAlpha * (1 - srcAlpha)) / outAlpha)))
             (clamp8 (mathRound (outAlpha * 255)))
         else dst)"

definition blendPixel :: "imageData \<Rightarrow> int \<Rightarrow> int \<Rightarrow> rgba \<Rightarrow> imageData" where
  "blendPixel img x y color =
     (let index = y * width img + x
      in if 0 \<le> index \<and> index < int (length (data img))
         then img\<lparr>data := (data img)[nat index := blendOver (data img ! nat index) color]\<rparr>
         else img)"

section \<open>Compositing the layers onto the display\<close>

text \<open>
  \<open>compositeAndRender\<close> clears the display and calls \<open>ctx.drawImage(layer.canvas, 0, 0)\<close>
  for every visible layer, bottom to top. The source never sets
  \<open>globalCompositeOperation\<close> or \<open>globalAlpha\<close> on the display context, so \<open>drawImage\<close>
  composites with the canvas default, source-over at full global alpha: a source pixel of
  alpha 0 leaves the destination pixel as it is and a source pixel of alpha 255 replaces
  it. In between, the result is the Porter-Duff over formula; how a user agent rounds it
  is not fixed, and no statement below depends on those pixels.
\<close>

definition sourceOver :: "rgba \<Rightarrow> rgba \<Rightarrow> rgba" where
  "sourceOver dst src =
     (if alpha src = 0 then dst else if alpha src = 255 then src else blendOver dst src)"

definition drawImage :: "rgba list \<Rightarrow> rgba list \<Rightarrow> rgba list" where
  "drawImage dst src = map (\<lambda>(d, s). sourceOver d s) (zip dst src)"

definition clearRect :: "int \<Rightarrow> int \<Rightarrow> rgba list" where
  "clearRect w h = replicate (nat (w * h)) transparent"

definition compositeLayers :: "int \<Rightarrow> int \<Rightarrow> layer list \<Rightarrow> rgba list" where
  "compositeLayers w h ls =
     foldl (\<lambda>d l. if visible l then drawImage d (pixels l) else d) (clearRect w h) ls"

definition compositeAndRender :: "editor \<Rightarrow> editor" where
  "compositeAndRender s =
     (case ctx s of
        None \<Rightarrow> s
      | Some _ \<Rightarrow> s\<lparr>ctx := Some (compositeLayers (canvasWidth s) (canvasHeight s) (layers s))\<rparr>)"

section \<open>Layer stack\<close>

text \<open>\<open>Array.prototype.splice\<close> normalises its start index before it removes or inserts.\<close>

definition spliceStart :: "int \<Rightarrow> 'a list \<Rightarrow> nat" where
  "spliceStart start xs =
     (let len = int (length xs)
      in nat (if start < 0 then max (len + start) 0 else min start len))"

definition spliceRemove1 :: "int \<Rightarrow> 'a list \<Rightarrow> 'a list" where
  "spliceRemove1 start xs = take (spliceStart start xs) xs @ drop (Suc (spliceStart start xs)) xs"

definition spliceInsert :: "int \<Rightarrow> 'a \<Rightarrow> 'a list \<Rightarrow> 'a list" where
  "spliceInsert start v xs = take (spliceStart start xs) xs @ v # drop (spliceStart start xs) xs"

text \<open>\<open>layers.filter((_, i) => i !== index)\<close> drops the element at \<open>index\<close>, if there is one.\<close>

definition filterIndexNe :: "int \<Rightarrow> 'a list \<Rightarrow> 'a list" where
  "filterIndexNe index xs = map snd (filter (\<lambda>(i, _). int i \<noteq> index) (enumerate 0 xs))"

fun showNat :: "nat \<Rightarrow> string" where
  "showNat n =
     (if n < 10 then [char_of (48 + n)]
      else showNat (n div 10) @ [char_of (48 + n mod 10)])"

text \<open>
  \<open>createLayer\<close> takes the fresh identifier that \<open>generateLayerId\<close> draws from the clock
  and the random generator as an argument. A new canvas is fully transparent.
\<close>

definition createLayer :: "string \<Rightarrow> editor \<Rightarrow> layer" where
  "createLayer newId s =
     \<lparr>layerId = newId,
      name = ''Layer '' @ showNat (length (layers s) + 1),
      pixels = clearRect (canvasWidth s) (canvasHeight s),
      visible = True\<rparr>"

definition addLayer :: "string \<Rightarrow> editor \<Rightarrow> editor" where
  "addLayer newId s =
     compositeAndRender
       (s\<lparr>layers := spliceInsert (activeLayerIndex s + 1) (createLayer newId s) (layers s),
          activeLayerIndex := activeLayerIndex s + 1\<rparr>)"

definition removeLayer :: "int \<Rightarrow> editor \<Rightarrow> editor" where
  "removeLayer index s =
     (if length (layers s) \<le> 1 then s
      else
        let newLayers = filterIndexNe index (layers s);
            s1 = s\<lparr>layers := newLayers\<rparr>;
            s2 = (if activeLayerIndex s1 \<ge> int (length (layers s1))
                  then s1\<lparr>activeLayerIndex := int (length (layers s1)) - 1\<rparr>
                  else if activeLayerIndex s1 > index
                  then s1\<lparr>activeLayerIndex := activeLayerIndex s1 - 1\<rparr>
                  else s1)
        in compositeAndRender s2)"

definition moveLayer :: "int \<Rightarrow> int \<Rightarrow> editor \<Rightarrow> editor" where
  "moveLayer fromIndex toIndex s =
     (if fromIndex = toIndex then s
      else if fromIndex < 0 \<or> fromIndex \<ge> int (length (layers s)) then s
      else if toIndex < 0 \<or> toIndex \<ge> int (length (layers s)) then s
      else
        let movedLayer = layers s ! nat fromIndex;
            newLayers = spliceInsert toIndex movedLayer (spliceRemove1 fromIndex (layers s));
            s1 = s\<lparr>layers := newLayers\<rparr>;
            s2 = (if activeLayerIndex s1 = fromIndex
                  then s1\<lparr>activeLayerIndex := toIndex\<rparr>
                  else if fromIndex < activeLayerIndex s1 \<and> toIndex \<ge> activeLayerIndex s1
                  then s1\<lparr>activeLayerIndex := activeLayerIndex s1 - 1\<rparr>
                  else if fromIndex > activeLayerIndex s1 \<and> toIndex \<le> activeLayerIndex s1
                  then s1\<lparr>activeLayerIndex := activeLayerIndex s1 + 1\<rparr>
                  else s1)
        in compositeAndRender s2)"

text \<open>The invariant of the layer stack: at least one layer, and a valid active index.\<close>

definition stackInv :: "editor \<Rightarrow> bool" where
  "stackInv s \<longleftrightarrow>
     1 \<le> length (layers s) \<and> 0 \<le> activeLayerIndex s \<and> activeLayerIndex s < int (length (layers s))"

section \<open>History\<close>

text \<open>
  \<open>getImageData\<close> is \<open>layer.ctx.getImageData(0, 0, canvasWidth, canvasHeight)\<close>, a copy
  of the whole layer canvas, and \<open>putImageData\<close> is \<open>layer.ctx.putImageData(img, 0, 0)\<close>
  with such a full-size image, which replaces the whole canvas. Both stacks are emptied
  whenever the canvas size changes, so a history entry always has the current size.
\<close>

definition getImageData :: "editor \<Rightarrow> layer \<Rightarrow> imageData" where
  "getImageData s l = \<lparr>width = canvasWidth s, height = canvasHeight s, data = pixels l\<rparr>"

definition putImageData :: "imageData \<Rightarrow> layer \<Rightarrow> layer" where
  "putImageData img l = l\<lparr>pixels := data img\<rparr>"

definition snapshot :: "editor \<Rightarrow> historyState" where
  "snapshot s =
     \<lparr>layerStates = map (\<lambda>l. (layerId l, getImageData s l)) (layers s),
      savedActiveLayerIndex = activeLayerIndex s\<rparr>"

definition saveState :: "editor \<Rightarrow> editor" where
  "saveState s =
     (if length (layers s) = 0 then s
      else s\<lparr>undoStack :=
                drop (length (undoStack s) - (MAX_UNDO_STEPS - 1)) (undoStack s) @ [snapshot s],
              redoStack := []\<rparr>)"

text \<open>
  \<open>layers.find((l) => l.id === layerState.id)\<close> yields the first layer with that
  identifier, whose canvas is then overwritten in place.
\<close>

fun putFirst :: "string \<Rightarrow> imageData \<Rightarrow> layer list \<Rightarrow> layer list" where
  "putFirst i img [] = []"
| "putFirst i img (l # ls) =
     (if layerId l = i then putImageData img l # ls else l # putFirst i img ls)"

definition restoreLayers :: "(string \<times> imageData) list \<Rightarrow> layer list \<Rightarrow> layer list" where
  "restoreLayers sts ls = foldl (\<lambda>acc (i, img). putFirst i img acc) ls sts"

definition undo :: "editor \<Rightarrow> editor" where
  "undo s =
     (if length (undoStack s) = 0 \<or> length (layers s) = 0 then s
      else
        let currentState = snapshot s;
            s1 = s\<lparr>redoStack := redoStack s @ [currentState]\<rparr>;
            previousState = last (undoStack s1);
            s2 = s1\<lparr>undoStack := butlast (undoStack s1)\<rparr>;
            s3 = s2\<lparr>layers := restoreLayers (layerStates previousState) (layers s2)\<rparr>;
            s4 = s3\<lparr>activeLayerIndex := savedActiveLayerIndex previousState\<rparr>
        in compositeAndRender s4)"

definition redo :: "editor \<Rightarrow> editor" where
  "redo s =
     (if length (redoStack s) = 0 \<or> length (layers s) = 0 then s
      else
        let currentState = snapshot s;
            s1 = s\<lparr>undoStack := undoStack s @ [currentState]\<rparr>;
            nextState = last (redoStack s1);
            s2 = s1\<lparr>redoStack := butlast (redoStack s1)\<rparr>;
            s3 = s2\<lparr>layers := restoreLayers (layerStates nextState) (layers s2)\<rparr>;
            s4 = s3\<lparr>activeLayerIndex := savedActiveLayerIndex nextState\<rparr>
        in compositeAndRender s4)"

section \<open>Flood fill\<close>

text \<open>
  \<open>hexToRgba\<close> matches \<open>/^#?([a-f\d]{2})([a-f\d]{2})([a-f\d]{2})$/i\<close>: an optional
  hash sign and exactly six hexadecimal digits; any other string gives black.
\<close>

definition hexDigit :: "char \<Rightarrow> int option" where
  "hexDigit c =
     (let n = (of_char c :: nat)
      in if 48 \<le> n \<and> n \<le> 57 then Some (int n - 48)
         else if 97 \<le> n \<and> n \<le> 102 then Some (int n - 87)
         else if 65 \<le> n \<and> n \<le> 70 then Some (int n - 55)
         else None)"

definition parseHexPair :: "char \<Rightarrow> char \<Rightarrow> int option" where
  "parseHexPair c1 c2 =
     (case hexDigit c1 of
        None \<Rightarrow> None
      | Some hi \<Rightarrow> (case hexDigit c2 of None \<Rightarrow> None | Some lo \<Rightarrow> Some (16 * hi + lo)))"

definition hexToRgba :: "string \<Rightarrow> int \<Rightarrow> rgba" where
  "hexToRgba hex opacity =
     (let alphaByte = mathRound (of_int opacity / 100 * 255);
          body = (if hex \<noteq> [] \<and> hd hex = CHR ''#'' then tl hex else hex)
      in if length body = 6 then
           (case parseHexPair (body ! 0) (body ! 1) of
              None \<Rightarrow> RGBA 0 0 0 alphaByte
            | Some rv \<Rightarrow>
               (case parseHexPair (body ! 2) (body ! 3) of
                  None \<Rightarrow> RGBA 0 0 0 alphaByte
                | Some gv \<Rightarrow>
                   (case parseHexPair (body ! 4) (body ! 5) of
                      None \<Rightarrow> RGBA 0 0 0 alphaByte
                    | Some bv \<Rightarrow> RGBA rv gv bv alphaByte)))
         else RGBA 0 0 0 alphaByte)"

definition colorsMatch :: "rgba \<Rightarrow> rgba \<Rightarrow> int \<Rightarrow> bool" where
  "colorsMatch c1 c2 tolerance \<longleftrightarrow>
     \<bar>red c1 - red c2\<bar> \<le> tolerance \<and> \<bar>green c1 - green c2\<bar> \<le> tolerance
     \<and> \<bar>blue c1 - blue c2\<bar> \<le> tolerance \<and> \<bar>alpha c1 - alpha c2\<bar> \<le> tolerance"

definition getPixelColor :: "imageData \<Rightarrow> int \<Rightarrow> int \<Rightarrow> rgba" where
  "getPixelColor img x y = data img ! nat (y * width img + x)"

definition setPixelColor :: "imageData \<Rightarrow> int \<Rightarrow> int \<Rightarrow> rgba \<Rightarrow> imageData" where
  "setPixelColor img x y color = img\<lparr>data := storePixel (data img) (y * width img + x) color\<rparr>"

text \<open>
  \<open>activeCtx\<close> is derived as \<open>layers[activeLayerIndex]?.ctx ?? null\<close>; here it is the
  position of the active layer, if the index points at one.
\<close>

definition activeCtx :: "editor \<Rightarrow> nat option" where
  "activeCtx s =
     (if 0 \<le> activeLayerIndex s \<and> activeLayerIndex s < int (length (layers s))
      then Some (nat (activeLayerIndex s)) else None)"

definition putActive :: "nat \<Rightarrow> imageData \<Rightarrow> editor \<Rightarrow> editor" where
  "putActive i img s = s\<lparr>layers := (layers s)[i := putImageData img (layers s ! i)]\<rparr>"

text \<open>
  The work loop of \<open>floodFill\<close>. The array used as a stack is a list whose head is the
  top, so the four neighbours appear in reverse push order. The set of visited keys
  \<open>x,y\<close> is a set of coordinate pairs. A run that never leaves the loop is \<open>None\<close>.
\<close>

partial_function (option) floodLoop ::
  "int \<Rightarrow> int \<Rightarrow> rgba \<Rightarrow> rgba \<Rightarrow> (int \<times> int) list \<Rightarrow> (int \<times> int) set \<Rightarrow> imageData
     \<Rightarrow> imageData option" where
  "floodLoop cw ch targetColor fillColor stack visited img =
     (case stack of
        [] \<Rightarrow> Some img
      | p # rest \<Rightarrow>
          if p \<in> visited then floodLoop cw ch targetColor fillColor rest visited img
          else if fst p < 0 \<or> fst p \<ge> cw \<or> snd p < 0 \<or> snd p \<ge> ch
          then floodLoop cw ch targetColor fillColor rest visited img
          else if \<not> colorsMatch (getPixelColor img (fst p) (snd p)) targetColor 0
          then floodLoop cw ch targetColor fillColor rest visited img
          else floodLoop cw ch targetColor fillColor
                 ((fst p, snd p - 1) # (fst p, snd p + 1) # (fst p - 1, snd p) # (fst p + 1, snd p) # rest)
                 (insert p visited)
                 (setPixelColor img (fst p) (snd p) fillColor))"

definition floodFill :: "int \<Rightarrow> int \<Rightarrow> editor \<Rightarrow> editor option" where
  "floodFill startX startY s =
     (case activeCtx s of
        None \<Rightarrow> Some s
      | Some i \<Rightarrow>
          if startX < 0 \<or> startX \<ge> canvasWidth s \<or> startY < 0 \<or> startY \<ge> canvasHeight s
          then Some s
          else
            let s1 = saveState s;
                img = getImageData s1 (layers s1 ! i);
                targetColor = getPixelColor img startX startY;
                fillColor = hexToRgba (paintColor s1) (paintOpacity s1)
            in if colorsMatch targetColor fillColor 0 then Some s1
               else
                 (case floodLoop (canvasWidth s1) (canvasHeight s1) targetColor fillColor
                         [(startX, startY)] {} img of
                    None \<Rightarrow> None
                  | Some img' \<Rightarrow> Some (compositeAndRender (putActive i img' s1))))"

section \<open>Lasso selection\<close>

text \<open>
  The loop of \<open>pointInPolygon\<close> runs \<open>i\<close> over the vertices with \<open>j\<close> trailing one
  behind, starting at the last vertex. The quotient is taken only when the two
  \<open>y\<close> comparisons differ, so it never divides by zero.
\<close>

definition pointInPolygon :: "int \<Rightarrow> int \<Rightarrow> (int \<times> int) list \<Rightarrow> bool" where
  "pointInPolygon x y polygon =
     snd (foldl
       (\<lambda>(j, inside) i.
          let xi = fst (polygon ! i); yi = snd (polygon ! i);
              xj = fst (polygon ! j); yj = snd (polygon ! j)
          in (i, if (yi > y) \<noteq> (yj > y)
                    \<and> (of_int x :: rat) < of_int ((xj - xi) * (y - yi)) / of_int (yj - yi) + of_int xi
                 then \<not> inside else inside))
       (length polygon - 1, False) [0..<length polygon])"

text \<open>The even-odd rule in the words of the specification: count the crossed edges.\<close>

definition rayCrossesEdge :: "int \<Rightarrow> int \<Rightarrow> int \<times> int \<Rightarrow> int \<times> int \<Rightarrow> bool" where
  "rayCrossesEdge x y vi vj \<longleftrightarrow>
     (snd vi > y) \<noteq> (snd vj > y)
     \<and> (of_int x :: rat)
         < of_int (fst vj - fst vi) * of_int (y - snd vi) / of_int (snd vj - snd vi) + of_int (fst vi)"

definition evenOddInside :: "int \<Rightarrow> int \<Rightarrow> (int \<times> int) list \<Rightarrow> bool" where
  "evenOddInside x y polygon =
     odd (length (filter
       (\<lambda>i. rayCrossesEdge x y (polygon ! i)
               (polygon ! ((i + length polygon - 1) mod length polygon)))
       [0..<length polygon]))"

definition lassoExtent :: "int \<Rightarrow> int \<Rightarrow> (int \<times> int) list \<Rightarrow> bounds" where
  "lassoExtent cw ch points =
     foldl (\<lambda>b point.
              \<lparr>minX = min (minX b) (fst point), minY = min (minY b) (snd point),
               maxX = max (maxX b) (fst point), maxY = max (maxY b) (snd point)\<rparr>)
       \<lparr>minX = cw, minY = ch, maxX = 0, maxY = 0\<rparr> points"

definition clampBounds :: "int \<Rightarrow> int \<Rightarrow> bounds \<Rightarrow> bounds" where
  "clampBounds cw ch b =
     \<lparr>minX = max 0 (minX b), minY = max 0 (minY b),
      maxX = min (cw - 1) (maxX b), maxY = min (ch - 1) (maxY b)\<rparr>"

definition createLassoMask :: "editor \<Rightarrow> editor" where
  "createLassoMask s =
     (if length (lassoPoints s) < 3 then s
      else
        let b = clampBounds (canvasWidth s) (canvasHeight s)
                  (lassoExtent (canvasWidth s) (canvasHeight s) (lassoPoints s));
            msk = map (\<lambda>y. map (\<lambda>x.
                       if x \<ge> minX b \<and> x \<le> maxX b \<and> y \<ge> minY b \<and> y \<le> maxY b
                       then pointInPolygon x y (lassoPoints s) else False)
                     [0..canvasWidth s - 1])
                   [0..canvasHeight s - 1]
        in s\<lparr>lassoBounds := Some b, lassoMask := Some msk\<rparr>)"

text \<open>
  \<open>lassoMask[y] && lassoMask[y][x]\<close>: a missing row or a missing cell is falsy.
\<close>

definition maskAt :: "bool list list \<Rightarrow> int \<Rightarrow> int \<Rightarrow> bool" where
  "maskAt msk x y \<longleftrightarrow>
     0 \<le> y \<and> y < int (length msk) \<and> 0 \<le> x \<and> x < int (length (msk ! nat y))
     \<and> msk ! nat y ! nat x"

definition clearMasked :: "int \<Rightarrow> bool list list \<Rightarrow> bounds \<Rightarrow> imageData \<Rightarrow> imageData" where
  "clearMasked cw msk b img =
     foldl (\<lambda>im y.
        foldl (\<lambda>im' x.
                 if maskAt msk x y then im'\<lparr>data := storePixel (data im') (y * cw + x) transparent\<rparr>
                 else im')
          im [minX b..maxX b])
       img [minY b..maxY b]"

definition moveLassoToFloating :: "editor \<Rightarrow> editor" where
  "moveLassoToFloating s =
     (case activeCtx s of
        None \<Rightarrow> s
      | Some i \<Rightarrow>
         (case lassoMask s of
            None \<Rightarrow> s
          | Some msk \<Rightarrow>
             (case lassoBounds s of
                None \<Rightarrow> s
              | Some b \<Rightarrow>
                 (case lassoImageData s of
                    None \<Rightarrow> s
                  | Some extracted \<Rightarrow>
                     let s1 = saveState s;
                         img = clearMasked (canvasWidth s1) msk b (getImageData s1 (layers s1 ! i));
                         s2 = putActive i img s1;
                         s3 = s2\<lparr>floatingSelection :=
                                   Some \<lparr>floatingImageData = extracted,
                                         floatingX = minX b, floatingY = minY b\<rparr>\<rparr>;
                         s4 = s3\<lparr>lassoMask := None, lassoImageData := None, lassoBounds := None\<rparr>
                     in compositeAndRender s4))))"

text \<open>
  Compositing in the words of the specification, for comparison: every visible layer
  overwrites the display, so the last visible layer alone decides each pixel.
\<close>

definition overwriteComposite :: "int \<Rightarrow> int \<Rightarrow> layer list \<Rightarrow> rgba list" where
  "overwriteComposite w h ls =
     foldl (\<lambda>d l. if visible l then map snd (zip d (pixels l)) else d) (clearRect w h) ls"

section \<open>Auxiliary notions for the proofs\<close>

text \<open>A colour as a byte array holds it: every channel between 0 and 255.\<close>

definition validColor :: "rgba \<Rightarrow> bool" where
  "validColor c \<longleftrightarrow>
     0 \<le> red c \<and> red c \<le> 255 \<and> 0 \<le> green c \<and> green c \<le> 255
     \<and> 0 \<le> blue c \<and> blue c \<le> 255 \<and> 0 \<le> alpha c \<and> alpha c \<le> 255"

text \<open>What compositing leaves in pixel \<open>i\<close> of the display, layer by layer.\<close>

definition pixelOver :: "nat \<Rightarrow> rgba \<Rightarrow> layer list \<Rightarrow> rgba" where
  "pixelOver i d0 ls = foldl (\<lambda>d l. if visible l then sourceOver d (pixels l ! i) else d) d0 ls"

text \<open>
  The effect of a whole list of history entries on one layer, when identifiers are
  distinct and \<open>find\<close> therefore selects by identifier alone.
\<close>

definition putAll :: "(string \<times> imageData) list \<Rightarrow> layer \<Rightarrow> layer" where
  "putAll sts l = foldl (\<lambda>l' (i, img). if layerId l' = i then putImageData img l' else l') l sts"

text \<open>Two layers agree except possibly in their pixels.\<close>

definition sameButPixels :: "layer \<Rightarrow> layer \<Rightarrow> bool" where
  "sameButPixels l' l \<longleftrightarrow> l'\<lparr>pixels := pixels l\<rparr> = l"

text \<open>The cells of the canvas, which bound the set of visited coordinates.\<close>

definition grid :: "int \<Rightarrow> int \<Rightarrow> (int \<times> int) set" where
  "grid cw ch = {0..<cw} \<times> {0..<ch}"

text \<open>The body of the loop of \<open>pointInPolygon\<close>.\<close>

definition crossingStep :: "int \<Rightarrow> int \<Rightarrow> (int \<times> int) list \<Rightarrow> nat \<times> bool \<Rightarrow> nat \<Rightarrow> nat \<times> bool" where
  "crossingStep x y polygon =
     (\<lambda>(j, inside) i.
          let xi = fst (polygon ! i); yi = snd (polygon ! i);
              xj = fst (polygon ! j); yj = snd (polygon ! j)
          in (i, if (yi > y) \<noteq> (yj > y)
                    \<and> (of_int x :: rat) < of_int ((xj - xi) * (y - yi)) / of_int (yj - yi) + of_int xi
                 then \<not> inside else inside))"

section \<open>Example states\<close>

definition twoLayers :: editor where
  "twoLayers =
     \<lparr>canvasWidth = 1, canvasHeight = 1,
      layers = [\<lparr>layerId = ''a'', name = ''Background'', pixels = [RGBA 255 0 0 255], visible = True\<rparr>,
                \<lparr>layerId = ''b'', name = ''Layer 2'', pixels = [transparent], visible = True\<rparr>],
      activeLayerIndex = 1, ctx = Some [transparent],
      paintColor = ''#000000'', paintOpacity = 100,
      undoStack = [], redoStack = [], floatingSelection = None,
      lassoPoints = [], lassoMask = None, lassoImageData = None, lassoBounds = None\<rparr>"

definition blendSample :: imageData where
  "blendSample = \<lparr>width = 2, height = 1, data = [RGBA 10 20 30 128, RGBA 1 2 3 4]\<rparr>"

definition fillSample :: editor where
  "fillSample =
     \<lparr>canvasWidth = 2, canvasHeight = 1,
      layers = [\<lparr>layerId = ''a'', name = ''Background'',
                 pixels = [RGBA 0 0 0 255, RGBA 255 255 255 255], visible = True\<rparr>],
      activeLayerIndex = 0, ctx = None,
      paintColor = ''#000000'', paintOpacity = 100,
      undoStack = [],
      redoStack = [\<lparr>layerStates = [(''a'', \<lparr>width = 2, height = 1,
                       data = [RGBA 9 9 9 255, RGBA 255 255 255 255]\<rparr>)],
                    savedActiveLayerIndex = 0\<rparr>],
      floatingSelection = None,
      lassoPoints = [], lassoMask = None, lassoImageData = None, lassoBounds = None\<rparr>"

definition historySample :: editor where
  "historySample =
     twoLayers\<lparr>undoStack := [\<lparr>layerStates = [(''a'', \<lparr>width = 1, height = 1,
                                   data = [RGBA 0 0 255 255]\<rparr>)],
                              savedActiveLayerIndex = 0\<rparr>]\<rparr>"

definition triangle :: "(int \<times> int) list" where
  "triangle = [(0, 0), (10, 0), (0, 10)]"

definition lassoCanvas :: editor where
  "lassoCanvas =
     \<lparr>canvasWidth = 16, canvasHeight = 16,
      layers = [\<lparr>layerId = ''a'', name = ''Background'',
                 pixels = replicate 256 (RGBA 255 0 0 255), visible = True\<rparr>],
      activeLayerIndex = 0, ctx = None,
      paintColor = ''#000000'', paintOpacity = 100,
      undoStack = [], redoStack = [], floatingSelection = None,
      lassoPoints = triangle, lassoMask = None, lassoImageData = None, lassoBounds = None\<rparr>"

definition smallMask :: "bool list list" where
  "smallMask = [[True, True], [True, False]]"

definition lassoSelected :: editor where
  "lassoSelected =
     \<lparr>canvasWidth = 2, canvasHeight = 2,
      layers = [\<lparr>layerId = ''a'', name = ''Background'',
                 pixels = [RGBA 1 1 1 255, RGBA 2 2 2 255, RGBA 3 3 3 255, RGBA 4 4 4 255],
                 visible = True\<rparr>],
      activeLayerIndex = 0, ctx = None,
      paintColor = ''#000000'', paintOpacity = 100,
      undoStack = [], redoStack = [], floatingSelection = None,
      lassoPoints = [(0, 0), (2, 0), (0, 2)],
      lassoMask = Some smallMask,
      lassoImageData = Some \<lparr>width = 2, height = 2,
        data = [RGBA 1 1 1 255, RGBA 2 2 2 255, RGBA 3 3 3 255, transparent]\<rparr>,
      lassoBounds = Some \<lparr>minX = 0, minY = 0, maxX = 1, maxY = 1\<rparr>\<rparr>"

section \<open>Facts about the layer stack\<close>

lemma layers_compositeAndRender [simp]: "layers (compositeAndRender s) = layers s"
  by (simp add: compositeAndRender_def split: option.splits)

lemma activeLayerIndex_compositeAndRender [simp]:
  "activeLayerIndex (compositeAndRender s) = activeLayerIndex s"
  by (simp add: compositeAndRender_def split: option.splits)

lemma stackInv_compositeAndRender [simp]: "stackInv (compositeAndRender s) = stackInv s"
  by (simp add: stackInv_def)

lemma length_spliceInsert [simp]: "length (spliceInsert i v xs) = Suc (length xs)"
  by (simp add: spliceInsert_def)

lemma filterIndexNe_from:
  "map snd (filter (\<lambda>(i, _). int i \<noteq> index) (enumerate k xs)) =
     (if int k \<le> index \<and> index < int k + int (length xs)
      then take (nat index - k) xs @ drop (Suc (nat index - k)) xs else xs)"
proof (induction xs arbitrary: k)
  case Nil
  then show ?case by simp
next
  case (Cons x xs)
  show ?case
  proof (cases "int k = index")
    case True
    have "filter (\<lambda>(i, _). int i \<noteq> index) (enumerate (Suc k) xs) = enumerate (Suc k) xs"
      using True by (auto simp: filter_id_conv in_set_enumerate_eq)
    with True show ?thesis by auto
  next
    case False
    show ?thesis
    proof (cases "int k < index \<and> index < int k + int (length (x # xs))")
      case True
      then have step: "nat index - k = Suc (nat index - Suc k)"
        by linarith
      from True False show ?thesis
        using Cons.IH [of "Suc k"] by (simp add: step)
    next
      case outside: False
      with False show ?thesis
        using Cons.IH [of "Suc k"] by auto
    qed
  qed
qed

lemma filterIndexNe_eq:
  "filterIndexNe index xs =
     (if 0 \<le> index \<and> index < int (length xs)
      then take (nat index) xs @ drop (Suc (nat index)) xs else xs)"
  using filterIndexNe_from [of index 0 xs] by (simp add: filterIndexNe_def)

lemma length_filterIndexNe:
  "length (filterIndexNe index xs) =
     (if 0 \<le> index \<and> index < int (length xs) then length xs - 1 else length xs)"
  by (auto simp: filterIndexNe_eq)

lemma nth_remove1:
  "f < length xs \<Longrightarrow> i < length xs - 1 \<Longrightarrow>
   (take f xs @ drop (Suc f) xs) ! i = (if i < f then xs ! i else xs ! Suc i)"
  by (auto simp: nth_append min_def)

lemma nth_insert:
  "t \<le> length ys \<Longrightarrow> i \<le> length ys \<Longrightarrow>
   (take t ys @ v # drop t ys) ! i = (if i < t then ys ! i else if i = t then v else ys ! (i - 1))"
  by (auto simp: nth_append min_def nth_Cons')

lemma move_nth:
  assumes "f < length xs" "t < length xs" "i < length xs"
  shows "(take t (take f xs @ drop (Suc f) xs) @ xs ! f # drop t (take f xs @ drop (Suc f) xs)) ! i =
     (if i = t then xs ! f
      else if i < t then (if i < f then xs ! i else xs ! Suc i)
      else (if i - 1 < f then xs ! (i - 1) else xs ! i))"
proof -
  let ?ys = "take f xs @ drop (Suc f) xs"
  have len: "length ?ys = length xs - 1" using assms by auto
  have t: "t \<le> length ?ys" and i: "i \<le> length ?ys" using assms len by auto
  show ?thesis
  proof (cases "i = t")
    case True
    then show ?thesis using nth_insert [OF t i] by simp
  next
    case False
    then show ?thesis
      using nth_insert [OF t i, of "xs ! f"] assms len
      by (auto simp: nth_remove1)
  qed
qed

lemma move_nth_active:
  assumes "f < length xs" "t < length xs" "k < length xs" "f \<noteq> t"
  defines "zs \<equiv> take t (take f xs @ drop (Suc f) xs) @ xs ! f # drop t (take f xs @ drop (Suc f) xs)"
  shows "zs ! (if k = f then t else if f < k \<and> k \<le> t then k - 1
               else if k < f \<and> t \<le> k then Suc k else k) = xs ! k"
proof -
  consider (same) "k = f" | (down) "f < k" "k \<le> t" | (up) "k < f" "t \<le> k"
    | (below) "k < f" "k < t" | (above) "f < k" "t < k"
    using assms(4) by linarith
  then show ?thesis
  proof cases
    case same
    then show ?thesis unfolding zs_def using move_nth [OF assms(1,2,2)] by simp
  next
    case down
    then have "k - 1 < length xs" "k - 1 < t" "\<not> k - 1 < f" "Suc (k - 1) = k"
      using assms by linarith+
    then show ?thesis unfolding zs_def using move_nth [OF assms(1,2), of "k - 1"] down by simp
  next
    case up
    then have "Suc k < length xs" "\<not> Suc k < t" "Suc k \<noteq> t"
      using assms by linarith+
    then show ?thesis unfolding zs_def using move_nth [OF assms(1,2), of "Suc k"] up by simp
  next
    case below
    then show ?thesis unfolding zs_def using move_nth [OF assms(1,2,3)] by simp
  next
    case above
    then have "\<not> k - 1 < f" "k \<noteq> t" "\<not> k < t" by linarith+
    then show ?thesis unfolding zs_def using move_nth [OF assms(1,2,3)] above by simp
  qed
qed

lemma spliceStart_valid: "0 \<le> i \<Longrightarrow> i \<le> int (length xs) \<Longrightarrow> spliceStart i xs = nat i"
  by (simp add: spliceStart_def)

lemma moved_list_eq:
  assumes "f < length xs" "t < length xs"
  shows "spliceInsert (int t) (xs ! f) (spliceRemove1 (int f) xs) =
     take t (take f xs @ drop (Suc f) xs) @ xs ! f # drop t (take f xs @ drop (Suc f) xs)"
proof -
  have rem: "spliceRemove1 (int f) xs = take f xs @ drop (Suc f) xs"
    using assms(1) by (simp add: spliceRemove1_def spliceStart_valid)
  have "int t \<le> int (length (take f xs @ drop (Suc f) xs))"
    using assms by simp
  then have "spliceStart (int t) (take f xs @ drop (Suc f) xs) = t"
    using spliceStart_valid [of "int t" "take f xs @ drop (Suc f) xs"] by simp
  then show ?thesis
    by (simp add: spliceInsert_def rem)
qed

lemma moveLayer_valid:
  assumes "f < length (layers s)" "t < length (layers s)" "f \<noteq> t"
  shows "layers (moveLayer (int f) (int t) s) =
           spliceInsert (int t) (layers s ! f) (spliceRemove1 (int f) (layers s))"
    and "activeLayerIndex (moveLayer (int f) (int t) s) =
           (if activeLayerIndex s = int f then int t
            else if int f < activeLayerIndex s \<and> int t \<ge> activeLayerIndex s
            then activeLayerIndex s - 1
            else if int f > activeLayerIndex s \<and> int t \<le> activeLayerIndex s
            then activeLayerIndex s + 1
            else activeLayerIndex s)"
  using assms by (simp_all add: moveLayer_def Let_def)

lemma moveLayer_nat:
  assumes "f < length (layers s)" "t < length (layers s)" "f \<noteq> t"
    and "k < length (layers s)" "activeLayerIndex s = int k"
  shows "layers (moveLayer (int f) (int t) s) ! nat (activeLayerIndex (moveLayer (int f) (int t) s))
           = layers s ! k"
    and "layers (moveLayer (int f) (int t) s) ! t = layers s ! f"
    and "length (layers (moveLayer (int f) (int t) s)) = length (layers s)"
    and "nat (activeLayerIndex (moveLayer (int f) (int t) s)) < length (layers s)"
    and "0 \<le> activeLayerIndex (moveLayer (int f) (int t) s)"
proof -
  let ?k' = "if k = f then t else if f < k \<and> k \<le> t then k - 1
             else if k < f \<and> t \<le> k then Suc k else k"
  have act: "activeLayerIndex (moveLayer (int f) (int t) s) = int ?k'"
    unfolding moveLayer_valid(2) [OF assms(1-3)] assms(5) by auto
  have lay: "layers (moveLayer (int f) (int t) s) =
     take t (take f (layers s) @ drop (Suc f) (layers s)) @ layers s ! f #
       drop t (take f (layers s) @ drop (Suc f) (layers s))"
    unfolding moveLayer_valid(1) [OF assms(1-3)] by (rule moved_list_eq [OF assms(1,2)])
  show "layers (moveLayer (int f) (int t) s) ! nat (activeLayerIndex (moveLayer (int f) (int t) s))
           = layers s ! k"
    unfolding act nat_int lay by (rule move_nth_active [OF assms(1,2,4,3)])
  show "layers (moveLayer (int f) (int t) s) ! t = layers s ! f"
    unfolding lay using move_nth [OF assms(1,2,2)] by simp
  show "length (layers (moveLayer (int f) (int t) s)) = length (layers s)"
    unfolding lay using assms(1,2) by simp
  show "nat (activeLayerIndex (moveLayer (int f) (int t) s)) < length (layers s)"
    unfolding act nat_int using assms(1-4) by auto
  show "0 \<le> activeLayerIndex (moveLayer (int f) (int t) s)"
    unfolding act by simp
qed


lemma stackInv_addLayer: "stackInv s \<Longrightarrow> stackInv (addLayer newId s)"
  unfolding addLayer_def stackInv_compositeAndRender by (simp add: stackInv_def)

lemma removeLayer_many:
  assumes "1 < length (layers s)"
  shows "layers (removeLayer index s) = filterIndexNe index (layers s)"
    and "activeLayerIndex (removeLayer index s) =
      (if activeLayerIndex s \<ge> int (length (filterIndexNe index (layers s)))
       then int (length (filterIndexNe index (layers s))) - 1
       else if activeLayerIndex s > index then activeLayerIndex s - 1
       else activeLayerIndex s)"
  using assms by (simp_all add: removeLayer_def Let_def)

lemma removeLayer_single: "length (layers s) \<le> 1 \<Longrightarrow> removeLayer index s = s"
  by (simp add: removeLayer_def)

lemma stackInv_removeLayer:
  assumes "stackInv s" "0 \<le> index"
  shows "stackInv (removeLayer index s)"
proof (cases "1 < length (layers s)")
  case True
  define n where "n = length (filterIndexNe index (layers s))"
  have n: "1 \<le> n" "n \<le> length (layers s)"
    using True by (auto simp: n_def length_filterIndexNe)
  have "length (layers (removeLayer index s)) = n"
    by (simp add: removeLayer_many(1) [OF True] n_def)
  moreover have "activeLayerIndex (removeLayer index s) =
      (if activeLayerIndex s \<ge> int n then int n - 1
       else if activeLayerIndex s > index then activeLayerIndex s - 1
       else activeLayerIndex s)"
    by (simp add: removeLayer_many(2) [OF True] n_def)
  ultimately show ?thesis
    using assms n unfolding stackInv_def by (simp split: if_splits)
next
  case False
  then show ?thesis using assms by (simp add: removeLayer_def)
qed

lemma stackInv_moveLayer:
  assumes "stackInv s"
  shows "stackInv (moveLayer fromIndex toIndex s)"
proof (cases "0 \<le> fromIndex \<and> fromIndex < int (length (layers s))
    \<and> 0 \<le> toIndex \<and> toIndex < int (length (layers s)) \<and> fromIndex \<noteq> toIndex")
  case True
  obtain f t k where ftk: "fromIndex = int f" "toIndex = int t" "activeLayerIndex s = int k"
    using True assms unfolding stackInv_def by (metis nonneg_int_cases)
  have b: "f < length (layers s)" "t < length (layers s)" "f \<noteq> t" "k < length (layers s)"
    using True assms ftk unfolding stackInv_def by simp_all
  note m = moveLayer_nat [OF b ftk(3)]
  have "activeLayerIndex (moveLayer (int f) (int t) s) < int (length (layers s))"
    using m(4,5) by linarith
  then show ?thesis
    unfolding ftk(1,2) stackInv_def using m(3,5) b(1) by simp
next
  case False
  then have "moveLayer fromIndex toIndex s = s"
    by (auto simp: moveLayer_def)
  with assms show ?thesis by simp
qed


section \<open>Facts about blending and compositing\<close>

lemma mathRound_of_int [simp]: "mathRound (of_int n) = n"
  unfolding mathRound_def by linarith

lemma clamp8_id: "0 \<le> v \<Longrightarrow> v \<le> 255 \<Longrightarrow> clamp8 v = v"
  by (simp add: clamp8_def)

lemma blendOver_opaque:
  assumes "alpha src = 255" "validColor src"
  shows "blendOver dst src = src"
proof -
  have "src = RGBA (red src) (green src) (blue src) 255"
    using assms(1) by (cases src) simp
  moreover have "mathRound (255 :: rat) = 255"
    using mathRound_of_int [of 255] by simp
  ultimately show ?thesis
    using assms unfolding blendOver_def validColor_def
    by (simp add: clamp8_id)
qed

lemma blendOver_transparent:
  assumes "alpha src = 0" "validColor dst"
  shows "blendOver dst src = dst"
proof (cases "alpha dst > 0")
  case True
  define k :: rat where "k = of_int (alpha dst) / 255"
  have k: "k > 0" using True by (simp add: k_def)
  have ch: "mathRound (of_int v * k / k) = v" for v
    using k by simp
  have al: "mathRound (k * 255) = alpha dst"
    using mathRound_of_int [of "alpha dst"] by (simp add: k_def)
  have "blendOver dst src = RGBA (clamp8 (red dst)) (clamp8 (green dst)) (clamp8 (blue dst)) (clamp8 (alpha dst))"
    using assms(1) k ch al unfolding blendOver_def k_def [symmetric] Let_def
    by simp
  then show ?thesis
    using assms(2) unfolding validColor_def by (cases dst) (simp add: clamp8_id)
next
  case False
  then have "alpha dst = 0" using assms(2) by (simp add: validColor_def)
  then show ?thesis using assms(1) by (simp add: blendOver_def)
qed

lemma length_drawImage [simp]: "length (drawImage d p) = min (length d) (length p)"
  by (simp add: drawImage_def)

lemma nth_drawImage:
  "i < length d \<Longrightarrow> i < length p \<Longrightarrow> drawImage d p ! i = sourceOver (d ! i) (p ! i)"
  by (simp add: drawImage_def)

lemma foldl_drawImage:
  assumes "\<forall>l \<in> set ls. length (pixels l) = length d0"
  shows "length (foldl (\<lambda>d l. if visible l then drawImage d (pixels l) else d) d0 ls) = length d0
     \<and> (\<forall>i < length d0.
          foldl (\<lambda>d l. if visible l then drawImage d (pixels l) else d) d0 ls ! i
            = pixelOver i (d0 ! i) ls)"
  using assms
proof (induction ls arbitrary: d0)
  case Nil
  then show ?case by (simp add: pixelOver_def)
next
  case (Cons l ls)
  let ?d1 = "if visible l then drawImage d0 (pixels l) else d0"
  have len1: "length ?d1 = length d0"
    using Cons.prems by simp
  have rest: "\<forall>u \<in> set ls. length (pixels u) = length ?d1"
    using Cons.prems len1 by simp
  have nth1: "?d1 ! i = (if visible l then sourceOver (d0 ! i) (pixels l ! i) else d0 ! i)"
    if "i < length d0" for i
    using that Cons.prems by (simp add: nth_drawImage)
  from Cons.IH [OF rest] show ?case
    unfolding len1 by (simp add: nth1 pixelOver_def)
qed

lemma compositeLayers_nth:
  assumes "\<forall>l \<in> set ls. length (pixels l) = nat (w * h)" "i < nat (w * h)"
  shows "compositeLayers w h ls ! i = pixelOver i transparent ls"
    and "length (compositeLayers w h ls) = nat (w * h)"
  using foldl_drawImage [of ls "clearRect w h"] assms
  by (simp_all add: compositeLayers_def clearRect_def)

lemma pixelOver_append: "pixelOver i d0 (xs @ ys) = pixelOver i (pixelOver i d0 xs) ys"
  by (simp add: pixelOver_def)

lemma pixelOver_all_clear:
  "\<forall>u \<in> set ls. visible u \<longrightarrow> alpha (pixels u ! i) = 0 \<Longrightarrow> pixelOver i d0 ls = d0"
  by (induction ls arbitrary: d0) (simp_all add: pixelOver_def sourceOver_def)

lemma pixelOver_opaque:
  assumes "visible l" "alpha (pixels l ! i) = 255"
    and "\<forall>u \<in> set upper. visible u \<longrightarrow> alpha (pixels u ! i) = 0"
  shows "pixelOver i d0 (lower @ l # upper) = pixels l ! i"
proof -
  have "pixelOver i d0 (lower @ [l]) = pixels l ! i"
    using assms(1,2) by (simp add: pixelOver_def sourceOver_def)
  then show ?thesis
    using pixelOver_append [of i d0 "lower @ [l]" upper] pixelOver_all_clear [OF assms(3)]
    by simp
qed

section \<open>Facts about the history\<close>

lemma layerId_putImageData [simp]: "layerId (putImageData img l) = layerId l"
  by (simp add: putImageData_def)

lemma map_layerId_putFirst [simp]: "map layerId (putFirst i img ls) = map layerId ls"
  by (induction ls) simp_all

lemma putFirst_distinct:
  "distinct (map layerId ls) \<Longrightarrow>
   putFirst i img ls = map (\<lambda>l. if layerId l = i then putImageData img l else l) ls"
proof (induction ls)
  case Nil
  then show ?case by simp
next
  case (Cons l ls)
  show ?case
  proof (cases "layerId l = i")
    case True
    then have "\<forall>u \<in> set ls. layerId u \<noteq> i"
      using Cons.prems by (auto simp: image_iff)
    then have "map (\<lambda>l. if layerId l = i then putImageData img l else l) ls = ls"
      by (simp add: map_idI)
    with True show ?thesis by simp
  next
    case False
    then show ?thesis using Cons by simp
  qed
qed

lemma restoreLayers_distinct:
  "distinct (map layerId ls) \<Longrightarrow> restoreLayers sts ls = map (putAll sts) ls"
proof (induction sts arbitrary: ls)
  case Nil
  then show ?case by (simp add: restoreLayers_def putAll_def)
next
  case (Cons st sts)
  obtain i img where st: "st = (i, img)" by (cases st)
  have d: "distinct (map layerId (putFirst i img ls))"
    using Cons.prems by simp
  have "restoreLayers (st # sts) ls = restoreLayers sts (putFirst i img ls)"
    by (simp add: restoreLayers_def st)
  also have "\<dots> = map (putAll sts) (putFirst i img ls)"
    by (rule Cons.IH [OF d])
  also have "\<dots> = map (putAll (st # sts)) ls"
    by (simp add: putFirst_distinct [OF Cons.prems] putAll_def st)
  finally show ?case .
qed

lemma map_layerId_restoreLayers [simp]: "map layerId (restoreLayers sts ls) = map layerId ls"
  unfolding restoreLayers_def
  by (induction sts arbitrary: ls) (simp_all add: split_def)

lemma layerId_putAll [simp]: "layerId (putAll sts l) = layerId l"
  unfolding putAll_def by (induction sts arbitrary: l) (simp_all add: split_def)

lemma sameButPixels_layerId:
  assumes "sameButPixels l' l"
  shows "layerId l' = layerId l"
proof -
  have "layerId l = layerId (l'\<lparr>pixels := pixels l\<rparr>)"
    using assms by (simp add: sameButPixels_def)
  then show ?thesis by simp
qed

lemma sameButPixels_refl [simp]: "sameButPixels l l"
  by (simp add: sameButPixels_def)

lemma sameButPixels_putImageData [simp]: "sameButPixels (putImageData img l') l = sameButPixels l' l"
  by (simp add: sameButPixels_def putImageData_def)

lemma sameButPixels_putAll [simp]: "sameButPixels (putAll sts l') l = sameButPixels l' l"
  unfolding putAll_def by (induction sts arbitrary: l') (simp_all add: split_def)

lemma putAll_no_match:
  "layerId l \<notin> fst ` set sts \<Longrightarrow> putAll sts l = l"
  unfolding putAll_def by (induction sts arbitrary: l) (auto simp: split_def)

lemma putAll_append: "putAll (xs @ ys) l = putAll ys (putAll xs l)"
  by (simp add: putAll_def)

lemma putAll_snapshot:
  assumes "distinct (map layerId ls)" "l \<in> set ls" "sameButPixels l' l"
  shows "putAll (map (\<lambda>u. (layerId u, getImageData s u)) ls) l' = l"
proof -
  let ?f = "\<lambda>u. (layerId u, getImageData s u)"
  obtain xs ys where split: "ls = xs @ l # ys"
    using assms(2) by (meson split_list)
  have id: "layerId l' = layerId l"
    using assms(3) by (rule sameButPixels_layerId)
  have nx: "layerId l' \<notin> fst ` set (map ?f xs)"
    using assms(1) unfolding split id by (auto simp: image_iff)
  have ny: "layerId l \<notin> fst ` set (map ?f ys)"
    using assms(1) unfolding split by (auto simp: image_iff)
  have a: "putAll (map ?f xs) l' = l'"
    using nx by (rule putAll_no_match)
  have b: "putAll [?f l] l' = l"
    using assms(3) id by (simp add: putAll_def putImageData_def getImageData_def sameButPixels_def)
  have c: "putAll (map ?f ys) l = l"
    using ny by (rule putAll_no_match)
  have "putAll (map ?f ls) l' = putAll (map ?f ys) (putAll [?f l] (putAll (map ?f xs) l'))"
    unfolding split by (simp add: putAll_def)
  then show ?thesis
    unfolding a b c .
qed

lemma sameButPixels_ids:
  assumes "list_all2 sameButPixels ls' ls"
  shows "map layerId ls' = map layerId ls"
  using assms by (induction rule: list_all2_induct) (simp_all add: sameButPixels_layerId)

lemma restore_snapshot:
  assumes "distinct (map layerId ls)" "list_all2 sameButPixels ls' ls"
  shows "restoreLayers (map (\<lambda>u. (layerId u, getImageData s u)) ls) ls' = ls"
proof -
  let ?snap = "map (\<lambda>u. (layerId u, getImageData s u)) ls"
  have len: "length ls' = length ls"
    using assms(2) by (rule list_all2_lengthD)
  have d: "distinct (map layerId ls')"
    using assms(1) sameButPixels_ids [OF assms(2)] by simp
  have "map (putAll ?snap) ls' = ls"
  proof (rule nth_equalityI)
    show "length (map (putAll ?snap) ls') = length ls"
      using len by simp
  next
    fix i assume "i < length (map (putAll ?snap) ls')"
    then have i: "i < length ls" "i < length ls'" using len by simp_all
    have "sameButPixels (ls' ! i) (ls ! i)"
      using assms(2) i(2) by (rule list_all2_nthD)
    moreover have "ls ! i \<in> set ls" using i(1) by simp
    ultimately have "putAll ?snap (ls' ! i) = ls ! i"
      using assms(1) by (intro putAll_snapshot)
    then show "map (putAll ?snap) ls' ! i = ls ! i"
      using i(2) by simp
  qed
  then show ?thesis
    unfolding restoreLayers_distinct [OF d] .
qed

lemma restoreLayers_sameButPixels:
  assumes "distinct (map layerId ls)"
  shows "list_all2 sameButPixels (restoreLayers sts ls) ls"
  unfolding restoreLayers_distinct [OF assms] list_all2_conv_all_nth
  by simp

lemma layers_undo:
  assumes "undoStack s \<noteq> []" "layers s \<noteq> []"
  shows "layers (undo s) = restoreLayers (layerStates (last (undoStack s))) (layers s)"
    and "redoStack (undo s) = redoStack s @ [snapshot s]"
  using assms by (simp_all add: undo_def Let_def compositeAndRender_def split: option.splits)

lemma layers_redo:
  assumes "redoStack s \<noteq> []" "layers s \<noteq> []"
  shows "layers (redo s) = restoreLayers (layerStates (last (redoStack s))) (layers s)"
    and "activeLayerIndex (redo s) = savedActiveLayerIndex (last (redoStack s))"
  using assms by (simp_all add: redo_def Let_def)

section \<open>Facts about flood fill\<close>

lemma finite_grid [simp]: "finite (grid cw ch)"
  by (simp add: grid_def)

lemma card_grid_insert:
  assumes "p \<in> grid cw ch" "p \<notin> visited"
  shows "card (grid cw ch - insert p visited) < card (grid cw ch - visited)"
proof (rule psubset_card_mono)
  show "finite (grid cw ch - visited)" by simp
  show "grid cw ch - insert p visited \<subset> grid cw ch - visited"
    using assms by auto
qed

lemma floodLoop_terminates:
  "\<exists>r. floodLoop cw ch targetColor fillColor stack visited img = Some r"
proof (induction "card (grid cw ch - visited)" arbitrary: visited stack img rule: less_induct)
  case less
  show ?case
  proof (induction stack arbitrary: img)
    case Nil
    show ?case by (subst floodLoop.simps) simp
  next
    case (Cons p rest)
    show ?case
    proof (cases "p \<in> visited \<or> fst p < 0 \<or> fst p \<ge> cw \<or> snd p < 0 \<or> snd p \<ge> ch
        \<or> \<not> colorsMatch (getPixelColor img (fst p) (snd p)) targetColor 0")
      case True
      then have "floodLoop cw ch targetColor fillColor (p # rest) visited img
          = floodLoop cw ch targetColor fillColor rest visited img"
        by (subst floodLoop.simps) auto
      then show ?thesis using Cons.IH [of img] by simp
    next
      case False
      then have "p \<in> grid cw ch" "p \<notin> visited"
        by (auto simp: grid_def mem_Times_iff)
      then have smaller: "card (grid cw ch - insert p visited) < card (grid cw ch - visited)"
        by (rule card_grid_insert)
      have "floodLoop cw ch targetColor fillColor (p # rest) visited img
          = floodLoop cw ch targetColor fillColor
              ((fst p, snd p - 1) # (fst p, snd p + 1) # (fst p - 1, snd p) # (fst p + 1, snd p) # rest)
              (insert p visited) (setPixelColor img (fst p) (snd p) fillColor)"
        using False by (subst floodLoop.simps) auto
      then show ?thesis using less [OF smaller] by simp
    qed
  qed
qed

lemma floor_rat_numeral:
  "\<lfloor>(numeral v :: rat) / numeral w\<rfloor> = numeral v div numeral w"
  using floor_divide_of_int_eq [of "numeral v" "numeral w", where ?'a = rat] by simp

lemma hexToRgba_black: "hexToRgba ''#000000'' 100 = RGBA 0 0 0 255"
  by (simp add: hexToRgba_def parseHexPair_def hexDigit_def mathRound_def Let_def
      floor_rat_numeral)

lemma floodFill_matching_seed:
  assumes "activeCtx s = Some i"
    and "0 \<le> startX" "startX < canvasWidth s" "0 \<le> startY" "startY < canvasHeight s"
    and "colorsMatch (getPixelColor (getImageData s (layers s ! i)) startX startY)
           (hexToRgba (paintColor s) (paintOpacity s)) 0"
  shows "floodFill startX startY s = Some (saveState s)"
    and "layers (saveState s) = layers s"
    and "undoStack (saveState s) =
           drop (length (undoStack s) - 49) (undoStack s) @ [snapshot s]"
    and "redoStack (saveState s) = []"
proof -
  have ne: "layers s \<noteq> []"
    using assms(1) by (auto simp: activeCtx_def split: if_splits)
  have same: "getImageData (saveState s) (layers (saveState s) ! i) = getImageData s (layers s ! i)"
    "paintColor (saveState s) = paintColor s" "paintOpacity (saveState s) = paintOpacity s"
    by (simp_all add: saveState_def getImageData_def)
  show "floodFill startX startY s = Some (saveState s)"
    using assms by (simp add: floodFill_def Let_def same)
  show "layers (saveState s) = layers s"
    by (simp add: saveState_def)
  show "undoStack (saveState s) = drop (length (undoStack s) - 49) (undoStack s) @ [snapshot s]"
    using ne by (simp add: saveState_def MAX_UNDO_STEPS_def)
  show "redoStack (saveState s) = []"
    using ne by (simp add: saveState_def)
qed

text \<open>A fill that does change a pixel, run on the sample canvas.\<close>

lemma floodFill_example:
  "map_option (\<lambda>s. (map pixels (layers s), length (undoStack s), redoStack s))
     (floodFill 1 0 fillSample)
   = Some ([[RGBA 0 0 0 255, RGBA 0 0 0 255]], 1, [])"
  by (simp add: floodFill_def fillSample_def activeCtx_def saveState_def Let_def
      getImageData_def getPixelColor_def hexToRgba_black colorsMatch_def floodLoop.simps
      setPixelColor_def storePixel_def clampPixel_def clamp8_def putActive_def putImageData_def
      compositeAndRender_def MAX_UNDO_STEPS_def)

section \<open>Facts about the lasso\<close>

lemma crossingStep_eq:
  "crossingStep x y polygon (j, inside) i =
     (i, if rayCrossesEdge x y (polygon ! i) (polygon ! j) then \<not> inside else inside)"
  by (simp add: crossingStep_def rayCrossesEdge_def Let_def)

lemma pointInPolygon_fold:
  "pointInPolygon x y polygon =
     snd (foldl (crossingStep x y polygon) (length polygon - 1, False) [0..<length polygon])"
  by (simp add: pointInPolygon_def crossingStep_def)

lemma crossing_prefix:
  assumes "k \<le> length polygon"
  shows "foldl (crossingStep x y polygon) (length polygon - 1, False) [0..<k] =
     ((if k = 0 then length polygon - 1 else k - 1),
      odd (length (filter
        (\<lambda>i. rayCrossesEdge x y (polygon ! i)
                (polygon ! ((i + length polygon - 1) mod length polygon))) [0..<k])))"
  using assms
proof (induction k)
  case 0
  then show ?case by simp
next
  case (Suc k)
  let ?n = "length polygon"
  have prev: "(k + ?n - 1) mod ?n = (if k = 0 then ?n - 1 else k - 1)"
  proof (cases k)
    case 0
    then show ?thesis using Suc.prems by simp
  next
    case (Suc m)
    then have "k + ?n - 1 = m + ?n" by simp
    moreover have "m < ?n" using Suc Suc.prems by simp
    ultimately show ?thesis using Suc by simp
  qed
  let ?F = "crossingStep x y polygon"
  let ?P = "\<lambda>i. rayCrossesEdge x y (polygon ! i) (polygon ! ((i + ?n - 1) mod ?n))"
  let ?j = "if k = 0 then ?n - 1 else k - 1"
  from Suc have IH: "foldl ?F (?n - 1, False) [0..<k] = (?j, odd (length (filter ?P [0..<k])))"
    by simp
  have "foldl ?F (?n - 1, False) [0..<Suc k] = ?F (foldl ?F (?n - 1, False) [0..<k]) k"
    by simp
  also have "\<dots> = ?F (?j, odd (length (filter ?P [0..<k]))) k"
    by (simp only: IH)
  also have "\<dots> = (k, if rayCrossesEdge x y (polygon ! k) (polygon ! ?j)
                       then \<not> odd (length (filter ?P [0..<k]))
                       else odd (length (filter ?P [0..<k])))"
    by (rule crossingStep_eq)
  also have "\<dots> = (k, odd (length (filter ?P [0..<Suc k])))"
    using prev by simp
  finally show ?case by simp
qed

lemma pointInPolygon_even_odd: "pointInPolygon x y polygon = evenOddInside x y polygon"
  unfolding pointInPolygon_fold evenOddInside_def
  using crossing_prefix [of "length polygon" polygon x y] by simp

lemma maskAt_rows:
  shows "maskAt (map (\<lambda>y. map (\<lambda>x. f x y) [0..cw - 1]) [0..ch - 1]) x y
           \<longleftrightarrow> 0 \<le> x \<and> x < cw \<and> 0 \<le> y \<and> y < ch \<and> f x y"
proof (cases "0 \<le> x \<and> x < cw \<and> 0 \<le> y \<and> y < ch")
  case True
  then have y: "[0..ch - 1] ! nat y = y" "nat y < length [0..ch - 1]"
    and x: "[0..cw - 1] ! nat x = x" "nat x < length [0..cw - 1]"
    by (simp_all add: nth_upto)
  show ?thesis
    using True x y by (simp add: maskAt_def)
next
  case False
  then show ?thesis
    by (auto simp: maskAt_def split: if_splits)
qed

lemma pointInPolygon_triangle:
  "pointInPolygon 1 1 triangle" "\<not> pointInPolygon 9 9 triangle"
  by (simp_all add: pointInPolygon_def triangle_def upt_rec Let_def)

lemma lassoExtent_triangle:
  "lassoExtent cw ch triangle =
     \<lparr>minX = min cw 0, minY = min ch 0, maxX = 10, maxY = 10\<rparr>"
  by (simp add: lassoExtent_def triangle_def)

lemma moveLassoToFloating_clears_pixels:
  "map pixels (layers (moveLassoToFloating lassoSelected))
     = [[transparent, transparent, transparent, RGBA 4 4 4 255]]"
  by (simp add: lassoSelected_def moveLassoToFloating_def activeCtx_def Let_def
      compositeAndRender_def putActive_def saveState_def clearMasked_def smallMask_def
      maskAt_def storePixel_def clampPixel_def clamp8_def getImageData_def putImageData_def
      upto_rec1 upto.simps)

section \<open>Claims about the layer stack\<close>

text \<open>
  C3. \<open>addLayer\<close>, \<open>removeLayer\<close> (called with a list position, which is never negative)
  and \<open>moveLayer\<close> keep the stack non-empty and the active index inside it. Removing
  from a stack of one layer changes nothing. Removing position \<open>index\<close> from a longer
  stack drops that layer; the active index becomes the new last index if it pointed past
  the new end, goes down by one if it was above \<open>index\<close>, and stays otherwise.
\<close>

theorem layer_mutations_keep_stackInv:
  "(stackInv s \<longrightarrow> stackInv (addLayer newId s))
   \<and> (stackInv s \<and> 0 \<le> index \<longrightarrow> stackInv (removeLayer index s))
   \<and> (stackInv s \<longrightarrow> stackInv (moveLayer fromIndex toIndex s))
   \<and> (length (layers s) \<le> 1 \<longrightarrow> removeLayer index s = s)
   \<and> (1 < length (layers s) \<and> 0 \<le> index \<and> index < int (length (layers s)) \<longrightarrow>
        layers (removeLayer index s) = take (nat index) (layers s) @ drop (Suc (nat index)) (layers s)
        \<and> activeLayerIndex (removeLayer index s) =
            (if activeLayerIndex s \<ge> int (length (layers s)) - 1 then int (length (layers s)) - 2
             else if activeLayerIndex s > index then activeLayerIndex s - 1
             else activeLayerIndex s))"
proof -
  have "layers (removeLayer index s) = take (nat index) (layers s) @ drop (Suc (nat index)) (layers s)
        \<and> activeLayerIndex (removeLayer index s) =
            (if activeLayerIndex s \<ge> int (length (layers s)) - 1 then int (length (layers s)) - 2
             else if activeLayerIndex s > index then activeLayerIndex s - 1
             else activeLayerIndex s)"
    if many: "1 < length (layers s)" and idx: "0 \<le> index" "index < int (length (layers s))"
  proof -
    have "int (length (filterIndexNe index (layers s))) = int (length (layers s)) - 1"
      using many idx by (simp add: length_filterIndexNe)
    then show ?thesis
      using idx by (simp add: removeLayer_many [OF many] filterIndexNe_eq)
  qed
  then show ?thesis
    using stackInv_addLayer stackInv_removeLayer stackInv_moveLayer removeLayer_single
    by blast
qed


theorem layer_mutations_keep_stackInv_witness:
  "stackInv twoLayers
   \<and> stackInv (addLayer ''c'' twoLayers)
   \<and> stackInv (removeLayer 0 twoLayers)
   \<and> stackInv (moveLayer 1 0 twoLayers)
   \<and> map layerId (layers (removeLayer 0 twoLayers)) = [''b'']
   \<and> activeLayerIndex (removeLayer 0 twoLayers) = 0
   \<and> removeLayer 0 (removeLayer 0 twoLayers) = removeLayer 0 twoLayers"
proof -
  have inv: "stackInv twoLayers"
    by (simp add: stackInv_def twoLayers_def)
  have len: "length (layers twoLayers) = 2" "activeLayerIndex twoLayers = 1"
    by (simp_all add: twoLayers_def)
  have one: "length (layers (removeLayer 0 twoLayers)) \<le> 1"
    using layer_mutations_keep_stackInv [of twoLayers "''c''" 0 1 0] len
    by (simp add: twoLayers_def)
  show ?thesis
    using inv len layer_mutations_keep_stackInv [of twoLayers "''c''" 0 1 0]
      layer_mutations_keep_stackInv [of "removeLayer 0 twoLayers" "''c''" 0 1 0] one
    by (simp add: twoLayers_def)
qed


text \<open>
  C5. For valid, distinct \<open>fromIndex\<close> and \<open>toIndex\<close> and a valid active index,
  \<open>moveLayer\<close> puts the moved layer at \<open>toIndex\<close>, keeps the length, and leaves the
  active index pointing at the layer (and so the identifier) that was active before.
\<close>

theorem moveLayer_keeps_active_layer:
  assumes "0 \<le> fromIndex" "fromIndex < int (length (layers s))"
    and "0 \<le> toIndex" "toIndex < int (length (layers s))" "fromIndex \<noteq> toIndex"
    and "0 \<le> activeLayerIndex s" "activeLayerIndex s < int (length (layers s))"
  shows "layers (moveLayer fromIndex toIndex s) ! nat (activeLayerIndex (moveLayer fromIndex toIndex s))
           = layers s ! nat (activeLayerIndex s)
       \<and> layerId (layers (moveLayer fromIndex toIndex s) ! nat (activeLayerIndex (moveLayer fromIndex toIndex s)))
           = layerId (layers s ! nat (activeLayerIndex s))
       \<and> layers (moveLayer fromIndex toIndex s) ! nat toIndex = layers s ! nat fromIndex
       \<and> length (layers (moveLayer fromIndex toIndex s)) = length (layers s)
       \<and> 0 \<le> activeLayerIndex (moveLayer fromIndex toIndex s)
       \<and> activeLayerIndex (moveLayer fromIndex toIndex s) < int (length (layers s))"
proof -
  obtain f t k where ftk: "fromIndex = int f" "toIndex = int t" "activeLayerIndex s = int k"
    using assms(1,3,6) by (metis nonneg_int_cases)
  have b: "f < length (layers s)" "t < length (layers s)" "f \<noteq> t" "k < length (layers s)"
    using assms ftk by simp_all
  note m = moveLayer_nat [OF b ftk(3)]
  have "activeLayerIndex (moveLayer (int f) (int t) s) < int (length (layers s))"
    using m(4,5) by linarith
  then show ?thesis
    unfolding ftk(1,2) using m by (simp add: ftk(3))
qed


theorem moveLayer_keeps_active_layer_witness:
  "layerId (layers (moveLayer 0 1 twoLayers) ! nat (activeLayerIndex (moveLayer 0 1 twoLayers))) = ''b''
   \<and> activeLayerIndex (moveLayer 0 1 twoLayers) = 0"
proof -
  have "activeLayerIndex (moveLayer 0 1 twoLayers) = 0"
    by (simp add: moveLayer_def twoLayers_def Let_def)
  then show ?thesis
    using moveLayer_keeps_active_layer [of 0 twoLayers 1]
    by (simp add: twoLayers_def)
qed


text \<open>
  C10. \<open>moveLayer\<close> returns the editor state unchanged when the two indices are equal or
  when either lies outside the layer list.
\<close>

theorem moveLayer_invalid_noop:
  "fromIndex = toIndex \<or> fromIndex < 0 \<or> fromIndex \<ge> int (length (layers s))
     \<or> toIndex < 0 \<or> toIndex \<ge> int (length (layers s))
   \<Longrightarrow> moveLayer fromIndex toIndex s = s"
  by (auto simp: moveLayer_def)

theorem moveLayer_invalid_noop_witness:
  "moveLayer 1 1 twoLayers = twoLayers \<and> moveLayer 0 2 twoLayers = twoLayers
   \<and> moveLayer (- 1) 0 twoLayers = twoLayers"
  using moveLayer_invalid_noop [of 1 1 twoLayers] moveLayer_invalid_noop [of 0 2 twoLayers]
    moveLayer_invalid_noop [of "- 1" 0 twoLayers]
  by (simp add: twoLayers_def)

section \<open>Claims about the history\<close>

text \<open>
  C2. With a non-empty undo stack and pairwise distinct layer identifiers (as
  \<open>generateLayerId\<close> hands them out), \<open>undo\<close> followed by \<open>redo\<close> gives back the
  layer list exactly as it was before the undo, pixel for pixel, and the active layer
  index as well.
\<close>

theorem undo_then_redo_restores:
  assumes "undoStack s \<noteq> []" "distinct (map layerId (layers s))"
  shows "layers (redo (undo s)) = layers s
       \<and> activeLayerIndex (redo (undo s)) = activeLayerIndex s"
proof (cases "layers s = []")
  case True
  then show ?thesis by (simp add: undo_def redo_def)
next
  case False
  let ?u = "undo s"
  have lu: "layers ?u = restoreLayers (layerStates (last (undoStack s))) (layers s)"
    and ru: "redoStack ?u = redoStack s @ [snapshot s]"
    using layers_undo [OF assms(1) False] by simp_all
  have same: "list_all2 sameButPixels (layers ?u) (layers s)"
    unfolding lu by (rule restoreLayers_sameButPixels [OF assms(2)])
  have ne: "redoStack ?u \<noteq> []" "layers ?u \<noteq> []"
    using ru False list_all2_lengthD [OF same] by auto
  have last: "last (redoStack ?u) = snapshot s"
    unfolding ru by simp
  have "layers (redo ?u) = restoreLayers (layerStates (snapshot s)) (layers ?u)"
    using layers_redo(1) [OF ne] last by simp
  also have "\<dots> = layers s"
    unfolding snapshot_def historyState.simps
    by (rule restore_snapshot [OF assms(2) same])
  finally have "layers (redo ?u) = layers s" .
  moreover have "activeLayerIndex (redo ?u) = activeLayerIndex s"
    using layers_redo(2) [OF ne] last by (simp add: snapshot_def)
  ultimately show ?thesis by simp
qed

theorem undo_then_redo_restores_witness:
  "map pixels (layers historySample) = [[RGBA 255 0 0 255], [transparent]]
   \<and> map pixels (layers (undo historySample)) = [[RGBA 0 0 255 255], [transparent]]
   \<and> activeLayerIndex (undo historySample) = 0
   \<and> layers (redo (undo historySample)) = layers historySample
   \<and> activeLayerIndex (redo (undo historySample)) = 1"
proof -
  have h: "undoStack historySample \<noteq> []" "distinct (map layerId (layers historySample))"
    by (simp_all add: historySample_def twoLayers_def)
  have "map pixels (layers (undo historySample)) = [[RGBA 0 0 255 255], [transparent]]"
    "activeLayerIndex (undo historySample) = 0"
    by (simp_all add: undo_def historySample_def twoLayers_def Let_def restoreLayers_def
        putImageData_def)
  then show ?thesis
    using undo_then_redo_restores [OF h] by (simp add: historySample_def twoLayers_def)
qed

section \<open>Claims about flood fill\<close>

text \<open>
  C1. A fill whose seed already has the paint colour leaves the layers unchanged, but
  \<open>floodFill\<close> has called \<open>saveState\<close> before it compares the colours: on the sample
  canvas the undo stack grows by a snapshot and the redo stack is emptied.
\<close>

theorem floodFill_same_color_pushes_history:
  "colorsMatch (getPixelColor (getImageData fillSample (layers fillSample ! 0)) 0 0)
     (hexToRgba (paintColor fillSample) (paintOpacity fillSample)) 0
   \<and> floodFill 0 0 fillSample = Some (saveState fillSample)
   \<and> layers (saveState fillSample) = layers fillSample
   \<and> undoStack fillSample = []
   \<and> undoStack (saveState fillSample) = [snapshot fillSample]
   \<and> length (redoStack fillSample) = 1
   \<and> redoStack (saveState fillSample) = []"
proof -
  have m: "colorsMatch (getPixelColor (getImageData fillSample (layers fillSample ! 0)) 0 0)
     (hexToRgba (paintColor fillSample) (paintOpacity fillSample)) 0"
    by (simp add: fillSample_def hexToRgba_black colorsMatch_def getPixelColor_def getImageData_def)
  have a: "activeCtx fillSample = Some 0"
    by (simp add: fillSample_def activeCtx_def)
  have b: "0 < canvasWidth fillSample" "0 < canvasHeight fillSample"
    by (simp_all add: fillSample_def)
  have "floodFill 0 0 fillSample = Some (saveState fillSample)"
    using floodFill_matching_seed(1) [OF a _ _ _ _ m] b by simp
  moreover have "undoStack (saveState fillSample) = [snapshot fillSample]"
    "redoStack (saveState fillSample) = []" "layers (saveState fillSample) = layers fillSample"
    by (simp_all add: saveState_def fillSample_def)
  moreover have "undoStack fillSample = []" "length (redoStack fillSample) = 1"
    by (simp_all add: fillSample_def)
  ultimately show ?thesis using m by simp
qed

text \<open>
  C9. The work loop of \<open>floodFill\<close> comes to an end for every editor state and every
  seed: each pass either shortens the stack or marks a canvas cell that was not yet
  visited, and only that second kind of pass grows the stack.
\<close>

theorem floodFill_terminates: "\<exists>s'. floodFill startX startY s = Some s'"
proof -
  obtain r where "floodLoop (canvasWidth (saveState s)) (canvasHeight (saveState s))
      (getPixelColor (getImageData (saveState s) (layers (saveState s) ! the (activeCtx s))) startX startY)
      (hexToRgba (paintColor (saveState s)) (paintOpacity (saveState s)))
      [(startX, startY)] {}
      (getImageData (saveState s) (layers (saveState s) ! the (activeCtx s))) = Some r"
    using floodLoop_terminates by blast
  then show ?thesis
    by (auto simp: floodFill_def Let_def split: option.splits)
qed

section \<open>Claims about blending and compositing\<close>

text \<open>
  C8. For a paint sample and a destination pixel with channels in 0..255, \<open>blendPixel\<close>
  writes exactly the sample when the sample's alpha is 255, and leaves the image
  unchanged when the sample's alpha is 0.
\<close>

theorem blendPixel_identities:
  assumes "0 \<le> y * width img + x" "y * width img + x < int (length (data img))"
    and "validColor src" "validColor (data img ! nat (y * width img + x))"
  shows "(alpha src = 255 \<longrightarrow>
            blendOver (data img ! nat (y * width img + x)) src = src
            \<and> data (blendPixel img x y src) = (data img)[nat (y * width img + x) := src])
       \<and> (alpha src = 0 \<longrightarrow>
            blendOver (data img ! nat (y * width img + x)) src = data img ! nat (y * width img + x)
            \<and> blendPixel img x y src = img)"
  using assms blendOver_opaque [of src "data img ! nat (y * width img + x)"]
    blendOver_transparent [of src "data img ! nat (y * width img + x)"]
  by (simp add: blendPixel_def Let_def)

theorem blendPixel_identities_witness:
  "data (blendPixel blendSample 1 0 (RGBA 200 100 50 255)) = [RGBA 10 20 30 128, RGBA 200 100 50 255]
   \<and> blendPixel blendSample 0 0 (RGBA 200 100 50 0) = blendSample"
  using blendPixel_identities [of 0 blendSample 1 "RGBA 200 100 50 255"]
    blendPixel_identities [of 0 blendSample 0 "RGBA 200 100 50 0"]
  by (simp add: blendSample_def validColor_def)

text \<open>
  C4, as the code has it. \<open>compositeAndRender\<close> clears the display and draws the visible
  layers bottom to top with source-over compositing: at a pixel where some visible layer
  is opaque and every visible layer above it is fully transparent the display shows that
  layer's value, and where every visible layer is fully transparent the display is
  transparent.
\<close>

theorem composite_is_source_over:
  assumes "ctx s \<noteq> None"
    and "\<forall>l \<in> set (layers s). length (pixels l) = nat (canvasWidth s * canvasHeight s)"
    and "i < nat (canvasWidth s * canvasHeight s)"
  shows "ctx (compositeAndRender s)
           = Some (compositeLayers (canvasWidth s) (canvasHeight s) (layers s))
       \<and> (\<forall>lower l upper.
            layers s = lower @ l # upper \<and> visible l \<and> alpha (pixels l ! i) = 255
            \<and> (\<forall>u \<in> set upper. visible u \<longrightarrow> alpha (pixels u ! i) = 0)
            \<longrightarrow> compositeLayers (canvasWidth s) (canvasHeight s) (layers s) ! i = pixels l ! i)
       \<and> ((\<forall>u \<in> set (layers s). visible u \<longrightarrow> alpha (pixels u ! i) = 0)
            \<longrightarrow> compositeLayers (canvasWidth s) (canvasHeight s) (layers s) ! i = transparent)"
proof -
  have "ctx (compositeAndRender s)
           = Some (compositeLayers (canvasWidth s) (canvasHeight s) (layers s))"
    using assms(1) by (auto simp: compositeAndRender_def split: option.splits)
  moreover have "compositeLayers (canvasWidth s) (canvasHeight s) (layers s) ! i
      = pixelOver i transparent (layers s)"
    by (rule compositeLayers_nth(1) [OF assms(2,3)])
  ultimately show ?thesis
    using pixelOver_opaque [of _ i _ transparent] pixelOver_all_clear [of "layers s" i transparent]
    by (metis (no_types, lifting))
qed

theorem composite_is_source_over_witness:
  "ctx (compositeAndRender twoLayers) = Some [RGBA 255 0 0 255]"
proof -
  have l: "layers twoLayers = [] @ (layers twoLayers ! 0) # [layers twoLayers ! 1]"
    by (simp add: twoLayers_def)
  have a: "ctx twoLayers \<noteq> None"
    "\<forall>l \<in> set (layers twoLayers). length (pixels l) = nat (canvasWidth twoLayers * canvasHeight twoLayers)"
    "0 < nat (canvasWidth twoLayers * canvasHeight twoLayers)"
    by (simp_all add: twoLayers_def)
  have v: "visible (layers twoLayers ! 0) \<and> alpha (pixels (layers twoLayers ! 0) ! 0) = 255
     \<and> (\<forall>u \<in> set [layers twoLayers ! 1]. visible u \<longrightarrow> alpha (pixels u ! 0) = 0)"
    by (simp add: twoLayers_def)
  have len: "length (compositeLayers (canvasWidth twoLayers) (canvasHeight twoLayers) (layers twoLayers)) = 1"
    using compositeLayers_nth(2) [OF a(2,3)] by (simp add: twoLayers_def)
  from composite_is_source_over [OF a]
  have c: "ctx (compositeAndRender twoLayers)
           = Some (compositeLayers (canvasWidth twoLayers) (canvasHeight twoLayers) (layers twoLayers))"
    and "compositeLayers (canvasWidth twoLayers) (canvasHeight twoLayers) (layers twoLayers) ! 0
           = pixels (layers twoLayers ! 0) ! 0"
    using l v by blast+
  then have "compositeLayers (canvasWidth twoLayers) (canvasHeight twoLayers) (layers twoLayers) ! 0
      = RGBA 255 0 0 255"
    by (simp add: twoLayers_def)
  with len have "compositeLayers (canvasWidth twoLayers) (canvasHeight twoLayers) (layers twoLayers)
      = [RGBA 255 0 0 255]"
    by (cases "compositeLayers (canvasWidth twoLayers) (canvasHeight twoLayers) (layers twoLayers)") auto
  with c show ?thesis by simp
qed

text \<open>
  The display is not the topmost visible layer's value: a transparent layer above an
  opaque red one shows red, where an overwriting copy would show transparent.
\<close>

theorem composite_overwrite_counterexample:
  "ctx (compositeAndRender twoLayers) = Some [RGBA 255 0 0 255]
   \<and> visible (layers twoLayers ! 1) \<and> pixels (layers twoLayers ! 1) = [transparent]
   \<and> overwriteComposite (canvasWidth twoLayers) (canvasHeight twoLayers) (layers twoLayers)
       = [transparent]"
  by (simp add: twoLayers_def compositeAndRender_def compositeLayers_def overwriteComposite_def
      clearRect_def drawImage_def sourceOver_def)

section \<open>Claims about the lasso\<close>

text \<open>
  C6. For a lasso of at least three points \<open>createLassoMask\<close> stores the clamped
  bounding box and a mask that is true exactly at the canvas pixels inside that box
  which the even-odd ray-casting rule puts inside the polygon. For the triangle
  (0,0), (10,0), (0,10) on a canvas of at least 2 by 2 the mask is true at (1,1) and
  false at (9,9).
\<close>

theorem lasso_mask_is_even_odd:
  assumes "3 \<le> length (lassoPoints s)"
  defines "b \<equiv> clampBounds (canvasWidth s) (canvasHeight s)
                  (lassoExtent (canvasWidth s) (canvasHeight s) (lassoPoints s))"
  shows "\<exists>msk. lassoMask (createLassoMask s) = Some msk
           \<and> lassoBounds (createLassoMask s) = Some b
           \<and> (\<forall>x y. maskAt msk x y \<longleftrightarrow>
                 0 \<le> x \<and> x < canvasWidth s \<and> 0 \<le> y \<and> y < canvasHeight s
                 \<and> minX b \<le> x \<and> x \<le> maxX b \<and> minY b \<le> y \<and> y \<le> maxY b
                 \<and> evenOddInside x y (lassoPoints s))
           \<and> (lassoPoints s = triangle \<and> 2 \<le> canvasWidth s \<and> 2 \<le> canvasHeight s
                \<longrightarrow> maskAt msk 1 1 \<and> \<not> maskAt msk 9 9)"
proof -
  let ?f = "\<lambda>x y. if x \<ge> minX b \<and> x \<le> maxX b \<and> y \<ge> minY b \<and> y \<le> maxY b
                   then pointInPolygon x y (lassoPoints s) else False"
  let ?msk = "map (\<lambda>y. map (\<lambda>x. ?f x y) [0..canvasWidth s - 1]) [0..canvasHeight s - 1]"
  have m: "lassoMask (createLassoMask s) = Some ?msk"
    and bs: "lassoBounds (createLassoMask s) = Some b"
    using assms(1) by (simp_all add: createLassoMask_def Let_def b_def)
  have at: "maskAt ?msk x y \<longleftrightarrow>
                 0 \<le> x \<and> x < canvasWidth s \<and> 0 \<le> y \<and> y < canvasHeight s
                 \<and> minX b \<le> x \<and> x \<le> maxX b \<and> minY b \<le> y \<and> y \<le> maxY b
                 \<and> evenOddInside x y (lassoPoints s)" for x y
    unfolding maskAt_rows [of ?f]
    by (auto simp: pointInPolygon_even_odd)
  have tri: "maskAt ?msk 1 1 \<and> \<not> maskAt ?msk 9 9"
    if "lassoPoints s = triangle" "2 \<le> canvasWidth s" "2 \<le> canvasHeight s"
  proof -
    have "b = \<lparr>minX = 0, minY = 0, maxX = min (canvasWidth s - 1) 10,
               maxY = min (canvasHeight s - 1) 10\<rparr>"
      using that by (simp add: b_def lassoExtent_triangle clampBounds_def)
    then show ?thesis
      unfolding at using that pointInPolygon_triangle
      by (simp add: pointInPolygon_even_odd [symmetric])
  qed
  show ?thesis
    using m bs at tri by blast
qed

theorem lasso_mask_is_even_odd_witness:
  "maskAt (the (lassoMask (createLassoMask lassoCanvas))) 1 1
   \<and> \<not> maskAt (the (lassoMask (createLassoMask lassoCanvas))) 9 9"
proof -
  have "3 \<le> length (lassoPoints lassoCanvas)" "lassoPoints lassoCanvas = triangle"
    "2 \<le> canvasWidth lassoCanvas" "2 \<le> canvasHeight lassoCanvas"
    by (simp_all add: lassoCanvas_def triangle_def)
  then show ?thesis
    using lasso_mask_is_even_odd [of lassoCanvas] by auto
qed

text \<open>
  C7, as the code has it. With an active layer, a mask, bounds and extracted pixels,
  \<open>moveLassoToFloating\<close> clears the mask, the bounds and the extracted image, creates
  the floating selection from the extracted pixels at the top-left corner of the bounds,
  and keeps the point list as it was.
\<close>

theorem moveLassoToFloating_keeps_points:
  assumes "activeCtx s = Some i" "lassoMask s = Some msk" "lassoBounds s = Some b"
    and "lassoImageData s = Some extracted"
  shows "lassoMask (moveLassoToFloating s) = None
       \<and> lassoBounds (moveLassoToFloating s) = None
       \<and> lassoImageData (moveLassoToFloating s) = None
       \<and> lassoPoints (moveLassoToFloating s) = lassoPoints s
       \<and> floatingSelection (moveLassoToFloating s)
           = Some \<lparr>floatingImageData = extracted, floatingX = minX b, floatingY = minY b\<rparr>"
  using assms
  by (simp add: moveLassoToFloating_def Let_def compositeAndRender_def putActive_def saveState_def
      split: option.splits)

theorem moveLassoToFloating_keeps_points_witness:
  "lassoMask (moveLassoToFloating lassoSelected) = None
   \<and> lassoBounds (moveLassoToFloating lassoSelected) = None
   \<and> lassoPoints (moveLassoToFloating lassoSelected) = [(0, 0), (2, 0), (0, 2)]
   \<and> floatingSelection (moveLassoToFloating lassoSelected)
       = Some \<lparr>floatingImageData = \<lparr>width = 2, height = 2,
                  data = [RGBA 1 1 1 255, RGBA 2 2 2 255, RGBA 3 3 3 255, transparent]\<rparr>,
                floatingX = 0, floatingY = 0\<rparr>"
  using moveLassoToFloating_keeps_points [of lassoSelected 0 smallMask
      "\<lparr>minX = 0, minY = 0, maxX = 1, maxY = 1\<rparr>"
      "\<lparr>width = 2, height = 2,
        data = [RGBA 1 1 1 255, RGBA 2 2 2 255, RGBA 3 3 3 255, transparent]\<rparr>"]
  by (simp add: lassoSelected_def activeCtx_def)

text \<open>The point list is not cleared: on the sample selection it still holds the polygon.\<close>

theorem moveLassoToFloating_points_counterexample:
  "lassoMask lassoSelected \<noteq> None \<and> lassoBounds lassoSelected \<noteq> None
   \<and> lassoImageData lassoSelected \<noteq> None
   \<and> lassoPoints (moveLassoToFloating lassoSelected) = [(0, 0), (2, 0), (0, 2)]
   \<and> lassoPoints (moveLassoToFloating lassoSelected) \<noteq> []"
  by (simp add: lassoSelected_def moveLassoToFloating_def activeCtx_def Let_def
      compositeAndRender_def putActive_def saveState_def)

end
